theory Spec2Isabelle
  imports Complex_Main "HOL-Library.AList"
begin

section \<open>Values of the host language\<close>

text \<open>
  The lessons are TypeScript run on a JavaScript engine. The success payload of
  \<open>jsonParse\<close> has type \<open>any\<close>: it is whatever \<open>JSON.parse\<close> hands back. The values
  below are the ones a JSON text denotes, and \<open>undefined\<close>, which a read of a missing
  property yields.

  A JavaScript number is an IEEE double. Only its truthiness matters to the lessons, so
  the finite doubles are embedded in the rationals (both zeros are \<open>Finite 0\<close>).
\<close>

datatype js_number = NaN | Infinity bool | Finite rat

datatype js_value =
    JUndefined
  | JNull
  | JBoolean bool
  | JNumber js_number
  | JString string
  | JArray "js_value list"
  | JObject "(string \<times> js_value) list"

text \<open>
  The error objects the engine throws. \<open>error instanceof SyntaxError\<close> holds exactly
  for the objects built by the \<open>SyntaxError\<close> constructor (no built-in class derives from it).
\<close>

datatype error_class =
  Error | EvalError | RangeError | ReferenceError | SyntaxError | TypeError | URIError

datatype js_error = Exception (cls: error_class) (message: string)

definition instanceof :: "js_error \<Rightarrow> error_class \<Rightarrow> bool" where
  "instanceof e c = (cls e = c \<or> c = Error)"

text \<open>\<open>!x\<close> is the negation of \<open>ToBoolean x\<close>: the falsy values are \<open>undefined\<close>, \<open>null\<close>,
  \<open>false\<close>, the zeros, \<open>NaN\<close> and the empty string.\<close>

fun ToBoolean :: "js_value \<Rightarrow> bool" where
  "ToBoolean JUndefined = False"
| "ToBoolean JNull = False"
| "ToBoolean (JBoolean b) = b"
| "ToBoolean (JNumber NaN) = False"
| "ToBoolean (JNumber (Infinity s)) = True"
| "ToBoolean (JNumber (Finite q)) = (q \<noteq> 0)"
| "ToBoolean (JString s) = (s \<noteq> [])"
| "ToBoolean (JArray xs) = True"
| "ToBoolean (JObject kvs) = True"

fun typeof :: "js_value \<Rightarrow> string" where
  "typeof JUndefined = ''undefined''"
| "typeof JNull = ''object''"
| "typeof (JBoolean b) = ''boolean''"
| "typeof (JNumber n) = ''number''"
| "typeof (JString s) = ''string''"
| "typeof (JArray xs) = ''object''"
| "typeof (JObject kvs) = ''object''"

text \<open>
  The member read \<open>data.id\<close>. On \<open>undefined\<close> and \<open>null\<close> the engine throws a TypeError.
  On an object it is the own property of that name, \<open>undefined\<close> when there is none
  (the first binding of the key in the list is the property). On every other value the
  read goes to the built-in prototype, which has no \<open>id\<close>: the function is for names
  that the built-in prototypes do not define.
\<close>

fun get_member :: "js_value \<Rightarrow> string \<Rightarrow> js_error + js_value" where
  "get_member JUndefined k =
     Inl (Exception TypeError (''Cannot read properties of undefined (reading '' @ [CHR 0x27] @ k @ [CHR 0x27] @ '')''))"
| "get_member JNull k =
     Inl (Exception TypeError (''Cannot read properties of null (reading '' @ [CHR 0x27] @ k @ [CHR 0x27] @ '')''))"
| "get_member (JObject kvs) k = (case map_of kvs k of None \<Rightarrow> Inr JUndefined | Some v \<Rightarrow> Inr v)"
| "get_member v k = Inr JUndefined"

section \<open>Computations: side effects and thrown errors\<close>

text \<open>
  A JavaScript function may change the world (here: call the \<open>res\<close> callback, which a
  test replaces by a recording spy) and may throw. A computation takes the state and
  returns the new state together with either the thrown error (\<open>Inl\<close>) or the value
  (\<open>Inr\<close>). What happened before a throw stays in the state.
\<close>

type_synonym ('s, 'a) js = "'s \<Rightarrow> (js_error + 'a) \<times> 's"

definition ret :: "'a \<Rightarrow> ('s, 'a) js" where
  "ret x = (\<lambda>s. (Inr x, s))"

definition throw :: "js_error \<Rightarrow> ('s, 'a) js" where
  "throw e = (\<lambda>s. (Inl e, s))"

definition seq :: "('s, 'a) js \<Rightarrow> ('a \<Rightarrow> ('s, 'b) js) \<Rightarrow> ('s, 'b) js" where
  "seq m k = (\<lambda>s. case m s of (Inl e, s') \<Rightarrow> (Inl e, s') | (Inr x, s') \<Rightarrow> k x s')"

text \<open>A function without side effects, which may still throw, used inside a computation.\<close>

definition lift :: "js_error + 'a \<Rightarrow> ('s, 'a) js" where
  "lift r = (case r of Inl e \<Rightarrow> throw e | Inr x \<Rightarrow> ret x)"

section \<open>The Result value and its combinators\<close>

text \<open>
  Modelled from the spec: the Result type and its methods come from the neverthrow
  package, which the lessons import and whose code is not among the sources. Section 4.1
  of the specification gives each method by cases on the variant; the definitions below
  follow it, with the method names the lessons use (\<open>ok\<close>, \<open>err\<close>, \<open>isOk\<close>, \<open>isErr\<close>,
  \<open>map\<close>, \<open>mapErr\<close>, \<open>andThen\<close>, \<open>match\<close>). The callbacks are computations, since the
  lessons pass callbacks that call \<open>res\<close>.
\<close>

datatype ('t, 'e) Result = Ok (Result_value: 't) | Err (Result_error: 'e)

definition ok :: "'t \<Rightarrow> ('t, 'e) Result" where
  "ok v = Ok v"

definition err :: "'e \<Rightarrow> ('t, 'e) Result" where
  "err e = Err e"

fun isOk :: "('t, 'e) Result \<Rightarrow> bool" where
  "isOk (Ok v) = True"
| "isOk (Err e) = False"

fun isErr :: "('t, 'e) Result \<Rightarrow> bool" where
  "isErr (Ok v) = False"
| "isErr (Err e) = True"

fun Result_map :: "('t \<Rightarrow> ('s, 'u) js) \<Rightarrow> ('t, 'e) Result \<Rightarrow> ('s, ('u, 'e) Result) js" where
  "Result_map f (Ok v) = seq (f v) (\<lambda>u. ret (ok u))"
| "Result_map f (Err e) = ret (err e)"

fun Result_mapErr :: "('e \<Rightarrow> ('s, 'f) js) \<Rightarrow> ('t, 'e) Result \<Rightarrow> ('s, ('t, 'f) Result) js" where
  "Result_mapErr f (Ok v) = ret (ok v)"
| "Result_mapErr f (Err e) = seq (f e) (\<lambda>u. ret (err u))"

fun Result_andThen ::
  "('t \<Rightarrow> ('s, ('u, 'e) Result) js) \<Rightarrow> ('t, 'e) Result \<Rightarrow> ('s, ('u, 'e) Result) js" where
  "Result_andThen f (Ok v) = f v"
| "Result_andThen f (Err e) = ret (err e)"

fun Result_match :: "('t \<Rightarrow> ('s, 'r) js) \<Rightarrow> ('e \<Rightarrow> ('s, 'r) js) \<Rightarrow> ('t, 'e) Result \<Rightarrow> ('s, 'r) js" where
  "Result_match onOk onErr (Ok v) = onOk v"
| "Result_match onOk onErr (Err e) = onErr e"

section \<open>The lessons\<close>

subsection \<open>jsonParse\<close>

text \<open>
  The same function opens every lesson file. \<open>JSON.parse\<close> belongs to the engine, so it
  is an argument here: a function from the text to the parsed value, or to the error it
  throws.

  \<^verbatim>\<open>try { return ok(JSON.parse(input)) }
  catch (error) { if (error instanceof SyntaxError) { return err(error) } throw error }\<close>
\<close>

type_synonym json_parser = "string \<Rightarrow> js_error + js_value"

definition jsonParse :: "json_parser \<Rightarrow> string \<Rightarrow> js_error + (js_value, js_error) Result" where
  "jsonParse JSON_parse input =
     (case JSON_parse input of
        Inr v \<Rightarrow> Inr (ok v)
      | Inl e \<Rightarrow> if instanceof e SyntaxError then Inr (err e) else Inl e)"

subsection \<open>checkForId (lessons 5 and 6)\<close>

text \<open>
  \<^verbatim>\<open>if (!data.id) { return err(new Error("No id found")) }
  return ok(data)\<close>
\<close>

definition checkForId :: "js_value \<Rightarrow> js_error + (js_value, js_error) Result" where
  "checkForId data =
     (case get_member data ''id'' of
        Inl e \<Rightarrow> Inl e
      | Inr i \<Rightarrow> if \<not> ToBoolean i then Inr (err (Exception Error ''No id found'')) else Inr (ok data))"

subsection \<open>The request handlers\<close>

record request =
  body :: string

text \<open>
  \<open>res\<close> is the caller's callback \<open>(status, message) => void\<close>. The handlers evaluate
  the arguments of \<open>res(200, data.id)\<close> before the call, so a throwing member read
  leaves \<open>res\<close> uncalled.
\<close>

type_synonym 's responder = "nat \<Rightarrow> js_value \<Rightarrow> ('s, unit) js"

text \<open>Lesson 3, first solution: \<open>if (result.isOk()) res(200, result.value.id) else
  res(400, result.error.message)\<close>.\<close>

definition handleRequest_3 :: "json_parser \<Rightarrow> request \<Rightarrow> 's responder \<Rightarrow> ('s, unit) js" where
  "handleRequest_3 JSON_parse req res =
     seq (lift (jsonParse JSON_parse (body req))) (\<lambda>result.
       if isOk result
       then seq (lift (get_member (Result_value result) ''id'')) (\<lambda>i. res 200 i)
       else res 400 (JString (message (Result_error result))))"

text \<open>Lesson 3, second solution: the error branch first, with an early return.\<close>

definition handleRequest_3_alt :: "json_parser \<Rightarrow> request \<Rightarrow> 's responder \<Rightarrow> ('s, unit) js" where
  "handleRequest_3_alt JSON_parse req res =
     seq (lift (jsonParse JSON_parse (body req))) (\<lambda>result.
       if isErr result
       then res 400 (JString (message (Result_error result)))
       else seq (lift (get_member (Result_value result) ''id'')) (\<lambda>i. res 200 i))"

text \<open>Lesson 4: \<open>jsonParse(req.body).map(data => { res(200, data.id) })
  .mapErr(err => { res(400, err.message) })\<close>. The value of the chain is dropped.\<close>

definition handleRequest_4 :: "json_parser \<Rightarrow> request \<Rightarrow> 's responder \<Rightarrow> ('s, unit) js" where
  "handleRequest_4 JSON_parse req res =
     seq (lift (jsonParse JSON_parse (body req))) (\<lambda>r0.
     seq (Result_map (\<lambda>data. seq (lift (get_member data ''id'')) (\<lambda>i. res 200 i)) r0) (\<lambda>r1.
     seq (Result_mapErr (\<lambda>e. res 400 (JString (message e))) r1) (\<lambda>r2.
     ret ())))"

text \<open>Lesson 4.5: \<open>jsonParse(req.body).match(data => { res(200, data.id) },
  err => { res(400, err.message) })\<close>.\<close>

definition handleRequest_4_5 :: "json_parser \<Rightarrow> request \<Rightarrow> 's responder \<Rightarrow> ('s, unit) js" where
  "handleRequest_4_5 JSON_parse req res =
     seq (lift (jsonParse JSON_parse (body req))) (\<lambda>r0.
     seq (Result_match
            (\<lambda>data. seq (lift (get_member data ''id'')) (\<lambda>i. res 200 i))
            (\<lambda>e. res 400 (JString (message e))) r0) (\<lambda>u.
     ret ()))"

text \<open>Lesson 5: \<open>jsonParse(req.body).andThen(checkForId).map(data => { res(200, data.id) })
  .mapErr(err => { res(400, err.message) })\<close>.\<close>

definition handleRequest_5 :: "json_parser \<Rightarrow> request \<Rightarrow> 's responder \<Rightarrow> ('s, unit) js" where
  "handleRequest_5 JSON_parse req res =
     seq (lift (jsonParse JSON_parse (body req))) (\<lambda>r0.
     seq (Result_andThen (\<lambda>data. lift (checkForId data)) r0) (\<lambda>r1.
     seq (Result_map (\<lambda>data. seq (lift (get_member data ''id'')) (\<lambda>i. res 200 i)) r1) (\<lambda>r2.
     seq (Result_mapErr (\<lambda>e. res 400 (JString (message e))) r2) (\<lambda>r3.
     ret ()))))"

text \<open>Lesson 6 has the handler of lesson 5 again; only the type annotations differ.\<close>

definition handleRequest_6 :: "json_parser \<Rightarrow> request \<Rightarrow> 's responder \<Rightarrow> ('s, unit) js" where
  "handleRequest_6 JSON_parse req res =
     seq (lift (jsonParse JSON_parse (body req))) (\<lambda>r0.
     seq (Result_andThen (\<lambda>data. lift (checkForId data)) r0) (\<lambda>r1.
     seq (Result_map (\<lambda>data. seq (lift (get_member data ''id'')) (\<lambda>i. res 200 i)) r1) (\<lambda>r2.
     seq (Result_mapErr (\<lambda>e. res 400 (JString (message e))) r2) (\<lambda>r3.
     ret ()))))"

subsection \<open>The spies of the tests\<close>

text \<open>
  \<open>vitest.fn()\<close>, passed as \<open>res\<close>: it records the arguments of every call, in order,
  and returns. The state is the list of recorded calls.
\<close>

type_synonym call = "nat \<times> js_value"

definition resSpy :: "call list responder" where
  "resSpy status msg = (\<lambda>calls. (Inr (), calls @ [(status, msg)]))"

text \<open>
  A spy around a callback: every invocation is entered in a journal under the spy's
  name, and then the callback runs. The call count of a spy is the number of its
  entries.
\<close>

definition spy :: "string \<Rightarrow> ('a \<Rightarrow> ('s, 'b) js) \<Rightarrow> 'a \<Rightarrow> (string list \<times> 's, 'b) js" where
  "spy name f x = (\<lambda>(journal, s). case f x s of (r, s') \<Rightarrow> (r, (journal @ [name], s')))"

definition callCount :: "string \<Rightarrow> string list \<times> 's \<Rightarrow> nat" where
  "callCount name st = count_list (fst st) name"

text \<open>A chain \<open>r.andThen(f1).andThen(f2)...\<close> of any length, the steps given as a list.\<close>

fun andThen_chain ::
  "('t \<Rightarrow> ('s, ('t, 'e) Result) js) list \<Rightarrow> ('t, 'e) Result \<Rightarrow> ('s, ('t, 'e) Result) js" where
  "andThen_chain [] r = ret r"
| "andThen_chain (f # fs) r = seq (Result_andThen f r) (andThen_chain fs)"

section \<open>A reference engine\<close>

text \<open>
  The theorems below hold for every \<open>JSON.parse\<close>; where one of them assumes what the
  engine answers on a text, the assumption is met by the reader defined here, a
  recursive-descent reader of the JSON grammar (ECMA-404): objects, arrays, strings,
  numbers, \<open>true\<close>, \<open>false\<close>, \<open>null\<close>. It leaves out three things of the engine:
  escapes by code point in strings are rejected; a number keeps its exact decimal value
  and is not rounded to a double; and every error is worded as an unexpected character
  or an early end of the text, where the engine has further wordings (for a missing
  property name, for text after the value, for long texts). It is used on the texts of
  the scenarios only, on which it answers as the engine does.
\<close>

text \<open>White space, digits and the value of a digit string.\<close>

definition is_ws :: "char \<Rightarrow> bool" where
  "is_ws c = (c = CHR '' '' \<or> c = CHR 0x09 \<or> c = CHR 0x0A \<or> c = CHR 0x0D)"

definition skip_ws :: "string \<Rightarrow> string" where
  "skip_ws cs = dropWhile is_ws cs"

definition is_digit :: "char \<Rightarrow> bool" where
  "is_digit c = (48 \<le> (of_char c :: nat) \<and> (of_char c :: nat) \<le> 57)"

definition digits_value :: "string \<Rightarrow> nat" where
  "digits_value ds = foldl (\<lambda>n d. 10 * n + (of_char d - 48)) 0 ds"

text \<open>
  The readers below take the rest of the text and return the value read with what
  follows it (\<open>Inr\<close>), or the text from the offending character on (\<open>Inl\<close>, empty when
  the text ended too early). \<open>expect\<close> reads the remaining letters of a keyword,
  \<open>string_tail\<close> a string after its opening quote.
\<close>

fun expect :: "string \<Rightarrow> string \<Rightarrow> string + string" where
  "expect [] cs = Inr cs"
| "expect (w # ws) [] = Inl []"
| "expect (w # ws) (c # cs) = (if c = w then expect ws cs else Inl (c # cs))"

definition unescape :: "char \<Rightarrow> char option" where
  "unescape e =
     (if e = CHR 0x22 \<or> e = CHR 0x5C \<or> e = CHR ''/'' then Some e
      else if e = CHR ''b'' then Some (CHR 0x08)
      else if e = CHR ''f'' then Some (CHR 0x0C)
      else if e = CHR ''n'' then Some (CHR 0x0A)
      else if e = CHR ''r'' then Some (CHR 0x0D)
      else if e = CHR ''t'' then Some (CHR 0x09)
      else None)"

fun string_tail :: "string \<Rightarrow> string \<Rightarrow> string + string \<times> string" where
  "string_tail acc [] = Inl []"
| "string_tail acc (c # cs) =
     (if c = CHR 0x22 then Inr (rev acc, cs)
      else if c = CHR 0x5C then
        (case cs of
           [] \<Rightarrow> Inl []
         | e # cs' \<Rightarrow> (case unescape e of
                         None \<Rightarrow> Inl (e # cs')
                       | Some d \<Rightarrow> string_tail (d # acc) cs'))
      else if (of_char c :: nat) < 32 then Inl (c # cs)
      else string_tail (c # acc) cs)"

text \<open>A number: integer part without a leading zero, optional fraction, optional exponent.\<close>

definition int_part :: "string \<Rightarrow> string + string \<times> string" where
  "int_part cs =
     (case cs of
        [] \<Rightarrow> Inl []
      | c # r \<Rightarrow> if c = CHR ''0'' then Inr ([c], r)
                 else if is_digit c then Inr (takeWhile is_digit cs, dropWhile is_digit cs)
                 else Inl cs)"

definition frac_part :: "string \<Rightarrow> string + string \<times> string" where
  "frac_part cs =
     (case cs of
        [] \<Rightarrow> Inr ([], [])
      | c # r \<Rightarrow> if c = CHR ''.'' then
                   (if takeWhile is_digit r = [] then Inl r
                    else Inr (takeWhile is_digit r, dropWhile is_digit r))
                 else Inr ([], cs))"

definition exp_digits :: "bool \<Rightarrow> string \<Rightarrow> string + int \<times> string" where
  "exp_digits neg cs =
     (if takeWhile is_digit cs = [] then Inl cs
      else Inr ((if neg then - int (digits_value (takeWhile is_digit cs))
                 else int (digits_value (takeWhile is_digit cs))), dropWhile is_digit cs))"

definition exp_part :: "string \<Rightarrow> string + int \<times> string" where
  "exp_part cs =
     (case cs of
        [] \<Rightarrow> Inr (0, [])
      | c # r \<Rightarrow> if c = CHR ''e'' \<or> c = CHR ''E'' then
                   (case r of
                      [] \<Rightarrow> Inl []
                    | s # r' \<Rightarrow> if s = CHR ''-'' then exp_digits True r'
                                else if s = CHR ''+'' then exp_digits False r'
                                else exp_digits False r)
                 else Inr (0, cs))"

definition decimal :: "bool \<Rightarrow> string \<Rightarrow> string \<Rightarrow> int \<Rightarrow> rat" where
  "decimal neg ip fp ex =
     (let m = of_nat (digits_value ip) + of_nat (digits_value fp) / 10 ^ length fp;
          q = (if 0 \<le> ex then m * 10 ^ nat ex else m / 10 ^ nat (- ex))
      in if neg then - q else q)"

definition unsigned_number :: "bool \<Rightarrow> string \<Rightarrow> string + js_value \<times> string" where
  "unsigned_number neg cs =
     (case int_part cs of
        Inl x \<Rightarrow> Inl x
      | Inr (ip, r1) \<Rightarrow>
          (case frac_part r1 of
             Inl x \<Rightarrow> Inl x
           | Inr (fp, r2) \<Rightarrow>
               (case exp_part r2 of
                  Inl x \<Rightarrow> Inl x
                | Inr (ex, r3) \<Rightarrow> Inr (JNumber (Finite (decimal neg ip fp ex)), r3))))"

text \<open>
  Values, array elements and object members. The first argument bounds the number of
  nested calls; the reader is started with one more than twice the length of the text,
  which is enough (lemma \<open>JSON_parse_ref_fuel\<close>). A repeated key overwrites the earlier
  binding, as in the engine.
\<close>

fun parse_value :: "nat \<Rightarrow> string \<Rightarrow> string + js_value \<times> string"
  and parse_elements :: "nat \<Rightarrow> js_value list \<Rightarrow> string \<Rightarrow> string + js_value list \<times> string"
  and parse_members ::
    "nat \<Rightarrow> (string \<times> js_value) list \<Rightarrow> string \<Rightarrow> string + (string \<times> js_value) list \<times> string"
where
  "parse_value 0 cs = Inl cs"
| "parse_value (Suc n) cs =
     (case skip_ws cs of
        [] \<Rightarrow> Inl []
      | c # r \<Rightarrow>
          if c = CHR ''{'' then
            (case skip_ws r of
               [] \<Rightarrow> Inl []
             | d # r' \<Rightarrow>
                 if d = CHR ''}'' then Inr (JObject [], r')
                 else (case parse_members n [] (d # r') of
                         Inl x \<Rightarrow> Inl x
                       | Inr (kvs, r'') \<Rightarrow> Inr (JObject kvs, r'')))
          else if c = CHR ''['' then
            (case skip_ws r of
               [] \<Rightarrow> Inl []
             | d # r' \<Rightarrow>
                 if d = CHR '']'' then Inr (JArray [], r')
                 else (case parse_elements n [] (d # r') of
                         Inl x \<Rightarrow> Inl x
                       | Inr (vs, r'') \<Rightarrow> Inr (JArray vs, r'')))
          else if c = CHR 0x22 then
            (case string_tail [] r of Inl x \<Rightarrow> Inl x | Inr (s, r') \<Rightarrow> Inr (JString s, r'))
          else if c = CHR ''t'' then
            (case expect ''rue'' r of Inl x \<Rightarrow> Inl x | Inr r' \<Rightarrow> Inr (JBoolean True, r'))
          else if c = CHR ''f'' then
            (case expect ''alse'' r of Inl x \<Rightarrow> Inl x | Inr r' \<Rightarrow> Inr (JBoolean False, r'))
          else if c = CHR ''n'' then
            (case expect ''ull'' r of Inl x \<Rightarrow> Inl x | Inr r' \<Rightarrow> Inr (JNull, r'))
          else if c = CHR ''-'' then unsigned_number True r
          else if is_digit c then unsigned_number False (c # r)
          else Inl (c # r))"
| "parse_elements 0 acc cs = Inl cs"
| "parse_elements (Suc n) acc cs =
     (case parse_value n cs of
        Inl x \<Rightarrow> Inl x
      | Inr (v, r) \<Rightarrow>
          (case skip_ws r of
             [] \<Rightarrow> Inl []
           | c # r' \<Rightarrow>
               if c = CHR '','' then parse_elements n (acc @ [v]) r'
               else if c = CHR '']'' then Inr (acc @ [v], r')
               else Inl (c # r')))"
| "parse_members 0 acc cs = Inl cs"
| "parse_members (Suc n) acc cs =
     (case skip_ws cs of
        [] \<Rightarrow> Inl []
      | q # r \<Rightarrow>
          if q \<noteq> CHR 0x22 then Inl (q # r)
          else
            (case string_tail [] r of
               Inl x \<Rightarrow> Inl x
             | Inr (k, r1) \<Rightarrow>
                 (case skip_ws r1 of
                    [] \<Rightarrow> Inl []
                  | c # r2 \<Rightarrow>
                      if c \<noteq> CHR '':'' then Inl (c # r2)
                      else
                        (case parse_value n r2 of
                           Inl x \<Rightarrow> Inl x
                         | Inr (v, r3) \<Rightarrow>
                             (case skip_ws r3 of
                                [] \<Rightarrow> Inl []
                              | d # r4 \<Rightarrow>
                                  if d = CHR '','' then parse_members n (AList.update k v acc) r4
                                  else if d = CHR ''}'' then Inr (AList.update k v acc, r4)
                                  else Inl (d # r4))))))"

text \<open>
  The error text. For an unexpected character it is the wording that the tests of
  lessons 3 to 6 quote for \<open>invalid json\<close>; the engine words other errors, and errors
  in longer texts, differently, and those wordings are not reproduced.
\<close>

definition syntax_error :: "string \<Rightarrow> string \<Rightarrow> js_error" where
  "syntax_error src rest =
     Exception SyntaxError
       (case rest of
          [] \<Rightarrow> ''Unexpected end of JSON input''
        | c # r \<Rightarrow> ''Unexpected token '' @ [CHR 0x27, c, CHR 0x27] @ '', '' @ [CHR 0x22] @ src @ [CHR 0x22]
                     @ '' is not valid JSON'')"

definition JSON_parse_ref :: json_parser where
  "JSON_parse_ref src =
     (case parse_value (Suc (2 * length src)) src of
        Inl rest \<Rightarrow> Inl (syntax_error src rest)
      | Inr (v, rest) \<Rightarrow>
          (case skip_ws rest of
             [] \<Rightarrow> Inr v
           | c # r \<Rightarrow> Inl (syntax_error src (c # r))))"


section \<open>Outcome of a handler, by cases\<close>

text \<open>
  Two summaries used in the proofs: what reaches the spy as a function of the engine's
  answer, for the handlers that read \<open>id\<close> without checking it (lessons 3, 4, 4.5) and
  for those that run \<open>checkForId\<close> first (lessons 5, 6). Lemmas \<open>handleRequest_*_eq\<close>
  show that each handler computes its summary.
\<close>

definition respond_plain ::
  "json_parser \<Rightarrow> request \<Rightarrow> call list \<Rightarrow> (js_error + unit) \<times> call list" where
  "respond_plain P req calls =
     (case P (body req) of
        Inl e \<Rightarrow> if cls e = SyntaxError then (Inr (), calls @ [(400, JString (message e))])
                 else (Inl e, calls)
      | Inr v \<Rightarrow> (case get_member v ''id'' of
                    Inl e \<Rightarrow> (Inl e, calls)
                  | Inr i \<Rightarrow> (Inr (), calls @ [(200, i)])))"

definition respond_checked ::
  "json_parser \<Rightarrow> request \<Rightarrow> call list \<Rightarrow> (js_error + unit) \<times> call list" where
  "respond_checked P req calls =
     (case P (body req) of
        Inl e \<Rightarrow> if cls e = SyntaxError then (Inr (), calls @ [(400, JString (message e))])
                 else (Inl e, calls)
      | Inr v \<Rightarrow> (case get_member v ''id'' of
                    Inl e \<Rightarrow> (Inl e, calls)
                  | Inr i \<Rightarrow> if ToBoolean i then (Inr (), calls @ [(200, i)])
                             else (Inr (), calls @ [(400, JString ''No id found'')])))"

section \<open>Basic facts\<close>

lemma seq_ret [simp]: "seq (ret x) k = k x"
  by (simp add: seq_def ret_def)

lemma seq_throw [simp]: "seq (throw e) k = throw e"
  by (simp add: seq_def throw_def)

lemma lift_simps [simp]: "lift (Inl e) = throw e" "lift (Inr x) = ret x"
  by (simp_all add: lift_def)

lemma jsonParse_cases:
  "jsonParse P s =
     (case P s of Inr v \<Rightarrow> Inr (Ok v)
      | Inl e \<Rightarrow> if cls e = SyntaxError then Inr (Err e) else Inl e)"
  by (simp add: jsonParse_def instanceof_def ok_def err_def split: sum.splits)

lemmas run_defs = throw_def ret_def resSpy_def seq_def ok_def err_def

lemma handleRequest_3_eq: "handleRequest_3 P req resSpy calls = respond_plain P req calls"
  by (auto simp: handleRequest_3_def respond_plain_def jsonParse_cases run_defs split: sum.splits)

lemma handleRequest_3_alt_eq: "handleRequest_3_alt P req resSpy calls = respond_plain P req calls"
  by (auto simp: handleRequest_3_alt_def respond_plain_def jsonParse_cases run_defs split: sum.splits)

lemma handleRequest_4_eq: "handleRequest_4 P req resSpy calls = respond_plain P req calls"
  by (auto simp: handleRequest_4_def respond_plain_def jsonParse_cases run_defs split: sum.splits)

lemma handleRequest_4_5_eq: "handleRequest_4_5 P req resSpy calls = respond_plain P req calls"
  by (auto simp: handleRequest_4_5_def respond_plain_def jsonParse_cases run_defs split: sum.splits)

lemma handleRequest_5_eq: "handleRequest_5 P req resSpy calls = respond_checked P req calls"
  by (auto simp: handleRequest_5_def respond_checked_def jsonParse_cases checkForId_def run_defs
      split: sum.splits)

lemma handleRequest_6_eq: "handleRequest_6 P req resSpy calls = respond_checked P req calls"
  by (auto simp: handleRequest_6_def respond_checked_def jsonParse_cases checkForId_def run_defs
      split: sum.splits)

lemmas handler_eqs =
  handleRequest_3_eq handleRequest_3_alt_eq handleRequest_4_eq handleRequest_4_5_eq
  handleRequest_5_eq handleRequest_6_eq

text \<open>What the reference engine answers on the texts of the scenarios.\<close>

lemma ref_id_123:
  \<open>JSON_parse_ref ''{"id": "123"}'' = Inr (JObject [(''id'', JString ''123'')])\<close>
  by code_simp

lemma ref_empty_object: \<open>JSON_parse_ref ''{}'' = Inr (JObject [])\<close>
  by code_simp

lemma ref_invalid_json:
  \<open>JSON_parse_ref ''invalid json'' =
     Inl (Exception SyntaxError ''Unexpected token 'i', "invalid json" is not valid JSON'')\<close>
  by code_simp

lemma ref_empty_id: \<open>JSON_parse_ref ''{"id": ""}'' = Inr (JObject [(''id'', JString [])])\<close>
  by code_simp

lemma ref_null: \<open>JSON_parse_ref ''null'' = Inr JNull\<close>
  by code_simp

section \<open>Laws of the combinators\<close>

lemma andThen_chain_Err: "andThen_chain fs (Err e) s = (Inr (Err e), s)"
proof (induction fs)
  case Nil
  show ?case by (simp add: ret_def)
next
  case (Cons f fs)
  have "andThen_chain (f # fs) (Err e) s = andThen_chain fs (Err e) s"
    by (simp add: err_def)
  with Cons show ?case by simp
qed

lemma seq_assoc: "seq (seq m k) h = seq m (\<lambda>x. seq (k x) h)"
  by (auto simp: seq_def fun_eq_iff split: prod.splits sum.splits)

lemma andThen_chain_append:
  "andThen_chain (fs @ gs) r = seq (andThen_chain fs r) (andThen_chain gs)"
proof (induction fs arbitrary: r)
  case Nil
  show ?case by simp
next
  case (Cons f fs)
  have step: "andThen_chain (fs @ gs) = (\<lambda>x. seq (andThen_chain fs x) (andThen_chain gs))"
    by (rule ext) (rule Cons.IH)
  show ?case
    by (simp add: step seq_assoc)
qed

text \<open>
  C7. Identity and pass-through: mapping the identity over a success gives the same
  success, mapping the identity over the payload of a failure gives the same failure;
  \<open>map\<close> on a failure returns that failure with its payload untouched and does not run
  the callback, and \<open>mapErr\<close> on a success returns that success likewise.
\<close>

theorem map_identity_and_pass_through:
  "Result_map ret (Ok v) s = (Inr (Ok v), s)
   \<and> Result_mapErr ret (Err e) s = (Inr (Err e), s)
   \<and> Result_map f (Err e) s = (Inr (Err e), s)
   \<and> Result_mapErr g (Ok v) s = (Inr (Ok v), s)"
  by (simp add: seq_def ret_def ok_def err_def)

theorem map_identity_and_pass_through_witness:
  "Result_map ret (Ok (JString ''123'')) ([] :: call list) = (Inr (Ok (JString ''123'')), [])
   \<and> Result_mapErr ret (Err (Exception Error ''No id found'')) ([] :: call list)
       = (Inr (Err (Exception Error ''No id found'')), [])
   \<and> Result_map (\<lambda>data. resSpy 200 data) (Err (Exception Error ''No id found'')) []
       = (Inr (Err (Exception Error ''No id found'')), [])
   \<and> Result_mapErr (\<lambda>e. resSpy 400 (JString (message e))) (Ok (JString ''123'')) []
       = (Inr (Ok (JString ''123'')), [])"
  using map_identity_and_pass_through
    [of "JString ''123''" "[] :: call list" "Exception Error ''No id found''"
        "\<lambda>data. resSpy 200 data" "\<lambda>e. resSpy 400 (JString (message e))"]
  by simp

text \<open>
  C6. Short circuit: \<open>andThen\<close> on a failure returns that failure and leaves the state
  as it was, whatever the callback would do; a spy around the callback counts no call.
  In a chain of \<open>andThen\<close> steps a failure at the start stays to the end, and once a
  prefix of the chain has ended in a failure the steps after it change neither the
  result nor the state.
\<close>

theorem andThen_short_circuit:
  "Result_andThen f (Err e) s = (Inr (Err e), s)
   \<and> callCount name (snd (Result_andThen (spy name g) (Err e) ([], s))) = 0
   \<and> andThen_chain fs (Err e) s = (Inr (Err e), s)
   \<and> (andThen_chain fs r s = (Inr (Err e), s') \<longrightarrow>
        andThen_chain (fs @ gs) r s = (Inr (Err e), s'))"
proof (intro conjI impI)
  show "Result_andThen f (Err e) s = (Inr (Err e), s)"
    by (simp add: ret_def err_def)
  show "callCount name (snd (Result_andThen (spy name g) (Err e) ([], s))) = 0"
    by (simp add: ret_def err_def callCount_def)
  show "andThen_chain fs (Err e) s = (Inr (Err e), s)"
    by (rule andThen_chain_Err)
next
  assume "andThen_chain fs r s = (Inr (Err e), s')"
  then show "andThen_chain (fs @ gs) r s = (Inr (Err e), s')"
    by (simp add: andThen_chain_append seq_def andThen_chain_Err)
qed

theorem andThen_short_circuit_witness:
  "andThen_chain [\<lambda>data. lift (checkForId data)] (Ok (JObject [])) ([] :: call list)
     = (Inr (Err (Exception Error ''No id found'')), [])
   \<and> andThen_chain
        ([\<lambda>data. lift (checkForId data)] @ [\<lambda>data. seq (resSpy 200 data) (\<lambda>u. ret (Ok data))])
        (Ok (JObject [])) []
     = (Inr (Err (Exception Error ''No id found'')), [])
   \<and> callCount ''checkForId''
        (snd (Result_andThen (spy ''checkForId'' (\<lambda>data. lift (checkForId data)))
           (Err (Exception SyntaxError ''Unexpected end of JSON input''))
           ([], [] :: call list))) = 0"
proof -
  have first:
    "andThen_chain [\<lambda>data. lift (checkForId data)] (Ok (JObject [])) ([] :: call list)
       = (Inr (Err (Exception Error ''No id found'')), [])"
    by (simp add: checkForId_def run_defs)
  have later:
    "andThen_chain
        ([\<lambda>data. lift (checkForId data)] @ [\<lambda>data. seq (resSpy 200 data) (\<lambda>u. ret (Ok data))])
        (Ok (JObject [])) []
     = (Inr (Err (Exception Error ''No id found'')), [])"
    using andThen_short_circuit
      [where fs = "[\<lambda>data. lift (checkForId data)]" and r = "Ok (JObject [])"
         and s = "[] :: call list" and e = "Exception Error ''No id found''" and s' = "[]"
         and gs = "[\<lambda>data. seq (resSpy 200 data) (\<lambda>u. ret (Ok data))]"]
      first
    by blast
  have count:
    "callCount ''checkForId''
        (snd (Result_andThen (spy ''checkForId'' (\<lambda>data. lift (checkForId data)))
           (Err (Exception SyntaxError ''Unexpected end of JSON input''))
           ([], [] :: call list))) = 0"
    using andThen_short_circuit
      [where name = "''checkForId''" and g = "\<lambda>data. lift (checkForId data)"
         and e = "Exception SyntaxError ''Unexpected end of JSON input''"
         and s = "[] :: call list"]
    by blast
  from first later count show ?thesis by simp
qed

section \<open>The reference engine has fuel enough\<close>

text \<open>
  Every reader that succeeds has read at least one character, and a value inside an
  array or an object is reached through two nested calls. So with more than twice the
  length of the text as the bound, a larger bound changes nothing: the bound is never
  what stops the reader.
\<close>

lemma skip_ws_length: "length (skip_ws cs) \<le> length cs"
  by (simp add: skip_ws_def length_dropWhile_le)

lemma skip_ws_Cons: "skip_ws cs = c # r \<Longrightarrow> length r < length cs"
  using skip_ws_length [of cs] by simp

lemma expect_length: "expect w cs = Inr r \<Longrightarrow> length r \<le> length cs"
  by (induction w cs rule: expect.induct) (auto split: if_splits)

lemma string_tail_length: "string_tail acc cs = Inr (s, r) \<Longrightarrow> length r < length cs"
proof (induction acc cs rule: string_tail.induct)
  case (1 acc)
  then show ?case by simp
next
  case (2 acc c cs)
  show ?case
  proof (cases "c = CHR 0x22")
    case True
    with 2(3) show ?thesis by simp
  next
    case notq: False
    show ?thesis
    proof (cases "c = CHR 0x5C")
      case True
      with notq 2(3) obtain e cs' d where cs: "cs = e # cs'" and u: "unescape e = Some d"
        and t: "string_tail (d # acc) cs' = Inr (s, r)"
        by (auto split: list.splits option.splits)
      from 2(1) [OF notq True cs u t] cs show ?thesis by simp
    next
      case False
      with notq 2(3) have ctl: "\<not> (of_char c :: nat) < 32" and t: "string_tail (c # acc) cs = Inr (s, r)"
        by (auto split: if_splits)
      from 2(2) [OF notq False ctl t] show ?thesis by simp
    qed
  qed
qed


lemma int_part_length: "int_part cs = Inr (d, r) \<Longrightarrow> length r < length cs"
proof (cases cs)
  case Nil
  assume "int_part cs = Inr (d, r)"
  with Nil show ?thesis by (simp add: int_part_def)
next
  case (Cons c t)
  assume a: "int_part cs = Inr (d, r)"
  show ?thesis
  proof (cases "c = CHR ''0''")
    case True
    with a Cons show ?thesis by (simp add: int_part_def)
  next
    case False
    with a Cons have "is_digit c" and "r = dropWhile is_digit t"
      by (auto simp: int_part_def split: if_splits)
    with Cons show ?thesis
      using length_dropWhile_le [of is_digit t] by simp
  qed
qed

lemma frac_part_length: "frac_part cs = Inr (d, r) \<Longrightarrow> length r \<le> length cs"
  by (cases cs) (auto simp: frac_part_def le_SucI length_dropWhile_le split: if_splits)

lemma exp_digits_length: "exp_digits b cs = Inr (x, r) \<Longrightarrow> length r \<le> length cs"
  by (auto simp: exp_digits_def length_dropWhile_le split: if_splits)

lemma exp_part_length: "exp_part cs = Inr (x, r) \<Longrightarrow> length r \<le> length cs"
proof (cases cs)
  case Nil
  assume "exp_part cs = Inr (x, r)"
  with Nil show ?thesis by (simp add: exp_part_def)
next
  case (Cons c t)
  assume a: "exp_part cs = Inr (x, r)"
  show ?thesis
  proof (cases "c = CHR ''e'' \<or> c = CHR ''E''")
    case False
    with a Cons show ?thesis by (simp add: exp_part_def)
  next
    case True
    with a Cons obtain b t' where "exp_digits b t' = Inr (x, r)" and "length t' \<le> length t"
      by (auto simp: exp_part_def split: list.splits if_splits)
    with Cons show ?thesis
      using exp_digits_length [of b t' x r] by simp
  qed
qed

lemma unsigned_number_length:
  assumes "unsigned_number neg cs = Inr (v, r)"
  shows "length r < length cs"
proof -
  from assms obtain d1 r1 d2 r2 x where
    "int_part cs = Inr (d1, r1)" "frac_part r1 = Inr (d2, r2)" "exp_part r2 = Inr (x, r)"
    by (auto simp: unsigned_number_def split: sum.splits)
  then have "length r1 < length cs" "length r2 \<le> length r1" "length r \<le> length r2"
    by (auto dest: int_part_length frac_part_length exp_part_length)
  then show ?thesis by simp
qed


lemma skip_ws_Cons_le: "skip_ws cs = c # r \<Longrightarrow> Suc (length r) \<le> length cs"
  using skip_ws_length [of cs] by simp

lemma readers_consume:
  "(\<forall>cs v r. parse_value n cs = Inr (v, r) \<longrightarrow> length r < length cs)
   \<and> (\<forall>cs acc vs r. parse_elements n acc cs = Inr (vs, r) \<longrightarrow> length r < length cs)
   \<and> (\<forall>cs acc kvs r. parse_members n acc cs = Inr (kvs, r) \<longrightarrow> length r < length cs)"
proof (induction n)
  case 0
  show ?case by simp
next
  case (Suc n)
  then have V: "\<And>cs v r. parse_value n cs = Inr (v, r) \<Longrightarrow> length r < length cs"
    and E: "\<And>cs acc vs r. parse_elements n acc cs = Inr (vs, r) \<Longrightarrow> length r < length cs"
    and M: "\<And>cs acc kvs r. parse_members n acc cs = Inr (kvs, r) \<Longrightarrow> length r < length cs"
    by blast+
  have val: "length r < length cs" if a: "parse_value (Suc n) cs = Inr (v, r)" for cs v r
  proof -
    from a obtain c t where sk: "skip_ws cs = c # t"
      by (auto split: list.splits)
    then have t: "Suc (length t) \<le> length cs" by (rule skip_ws_Cons_le)
    have "length r \<le> length t"
      using a sk
      by (auto split: list.splits if_splits sum.splits
          dest!: skip_ws_Cons_le string_tail_length expect_length unsigned_number_length E M)
    with t show ?thesis by simp
  qed
  have elems: "length r < length cs" if a: "parse_elements (Suc n) acc cs = Inr (vs, r)"
    for cs acc vs r
    using a
    by (auto split: list.splits if_splits sum.splits dest!: skip_ws_Cons_le V E)
  have membs: "length r < length cs" if a: "parse_members (Suc n) acc cs = Inr (kvs, r)"
    for cs acc kvs r
    using a
    by (auto split: list.splits if_splits sum.splits
        dest!: skip_ws_Cons_le string_tail_length V M)
  from val elems membs show ?case by blast
qed


lemmas consume_value = readers_consume [THEN conjunct1, rule_format]
lemmas consume_elements = readers_consume [THEN conjunct2, THEN conjunct1, rule_format]
lemmas consume_members = readers_consume [THEN conjunct2, THEN conjunct2, rule_format]

lemma fuel_enough:
  "(\<forall>cs m. 2 * length cs < n \<longrightarrow> n \<le> m \<longrightarrow> parse_value m cs = parse_value n cs)
   \<and> (\<forall>cs acc m. 2 * length cs + 1 < n \<longrightarrow> n \<le> m \<longrightarrow>
         parse_elements m acc cs = parse_elements n acc cs)
   \<and> (\<forall>cs acc m. 2 * length cs + 1 < n \<longrightarrow> n \<le> m \<longrightarrow>
         parse_members m acc cs = parse_members n acc cs)"
proof (induction n)
  case 0
  show ?case by simp
next
  case (Suc n)
  then have V: "\<And>cs m. 2 * length cs < n \<Longrightarrow> n \<le> m \<Longrightarrow> parse_value m cs = parse_value n cs"
    and E: "\<And>cs acc m. 2 * length cs + 1 < n \<Longrightarrow> n \<le> m \<Longrightarrow>
              parse_elements m acc cs = parse_elements n acc cs"
    and M: "\<And>cs acc m. 2 * length cs + 1 < n \<Longrightarrow> n \<le> m \<Longrightarrow>
              parse_members m acc cs = parse_members n acc cs"
    by blast+
  have val: "parse_value (Suc k) cs = parse_value (Suc n) cs"
    if fuel: "2 * length cs < Suc n" and k: "n \<le> k" for cs k
  proof (cases "skip_ws cs")
    case Nil
    then show ?thesis by simp
  next
    case outer: (Cons c t)
    then have t: "Suc (length t) \<le> length cs" by (rule skip_ws_Cons_le)
    show ?thesis
    proof (cases "skip_ws t")
      case Nil
      with outer show ?thesis by simp
    next
      case inner: (Cons d u)
      then have "Suc (length u) \<le> length t" by (rule skip_ws_Cons_le)
      with t fuel have enough: "2 * length (d # u) + 1 < n" by simp
      have inside: "parse_members k [] (d # u) = parse_members n [] (d # u)"
        "parse_elements k [] (d # u) = parse_elements n [] (d # u)"
        using enough k by (rule M, rule E)
      show ?thesis
        by (simp only: parse_value.simps outer inner list.case inside)
    qed
  qed
  have elems: "parse_elements (Suc k) acc cs = parse_elements (Suc n) acc cs"
    if fuel: "2 * length cs + 1 < Suc n" and k: "n \<le> k" for cs acc k
  proof -
    from fuel k have same: "parse_value k cs = parse_value n cs"
      by (intro V) simp_all
    show ?thesis
    proof (cases "parse_value n cs")
      case (Inl x)
      with same show ?thesis by simp
    next
      case (Inr p)
      obtain v r where p: "p = (v, r)" by (cases p)
      with Inr have r: "length r < length cs" by (auto dest: consume_value)
      show ?thesis
      proof (cases "skip_ws r")
        case Nil
        with same Inr p show ?thesis by simp
      next
        case (Cons c u)
        then have "Suc (length u) \<le> length r" by (rule skip_ws_Cons_le)
        with r fuel have "2 * length u + 1 < n" by simp
        then have "parse_elements k (acc @ [v]) u = parse_elements n (acc @ [v]) u"
          using k by (rule E)
        with same Inr p Cons show ?thesis by simp
      qed
    qed
  qed
  have membs: "parse_members (Suc k) acc cs = parse_members (Suc n) acc cs"
    if fuel: "2 * length cs + 1 < Suc n" and k: "n \<le> k" for cs acc k
  proof (cases "skip_ws cs")
    case Nil
    then show ?thesis by simp
  next
    case key: (Cons q t)
    then have t: "Suc (length t) \<le> length cs" by (rule skip_ws_Cons_le)
    show ?thesis
    proof (cases "string_tail [] t")
      case (Inl x)
      with key show ?thesis by simp
    next
      case name: (Inr p)
      obtain nm r1 where p: "p = (nm, r1)" by (cases p)
      with name have r1: "length r1 < length t" by (auto dest: string_tail_length)
      show ?thesis
      proof (cases "skip_ws r1")
        case Nil
        with key name p show ?thesis by simp
      next
        case colon: (Cons c r2)
        then have r2: "Suc (length r2) \<le> length r1" by (rule skip_ws_Cons_le)
        with t r1 fuel k have same: "parse_value k r2 = parse_value n r2"
          by (intro V) simp_all
        show ?thesis
        proof (cases "parse_value n r2")
          case (Inl x)
          with key name p colon same show ?thesis by simp
        next
          case val_ok: (Inr pv)
          obtain v r3 where pv: "pv = (v, r3)" by (cases pv)
          with val_ok have r3: "length r3 < length r2" by (auto dest: consume_value)
          show ?thesis
          proof (cases "skip_ws r3")
            case Nil
            with key name p colon same val_ok pv show ?thesis by simp
          next
            case (Cons d r4)
            then have "Suc (length r4) \<le> length r3" by (rule skip_ws_Cons_le)
            with t r1 r2 r3 fuel have "2 * length r4 + 1 < n" by simp
            then have "parse_members k (AList.update nm v acc) r4
                = parse_members n (AList.update nm v acc) r4"
              using k by (rule M)
            with key name p colon same val_ok pv Cons show ?thesis by simp
          qed
        qed
      qed
    qed
  qed
  show ?case
  proof (intro conjI allI impI)
    fix cs :: string and m assume "2 * length cs < Suc n" "Suc n \<le> m"
    then show "parse_value m cs = parse_value (Suc n) cs"
      using val [of cs "m - 1"] by (cases m) simp_all
  next
    fix cs :: string and acc :: "js_value list" and m
    assume "2 * length cs + 1 < Suc n" "Suc n \<le> m"
    then show "parse_elements m acc cs = parse_elements (Suc n) acc cs"
      using elems [of cs "m - 1" acc] by (cases m) simp_all
  next
    fix cs :: string and acc :: "(string \<times> js_value) list" and m
    assume "2 * length cs + 1 < Suc n" "Suc n \<le> m"
    then show "parse_members m acc cs = parse_members (Suc n) acc cs"
      using membs [of cs "m - 1" acc] by (cases m) simp_all
  qed
qed

lemma JSON_parse_ref_fuel:
  "Suc (2 * length src) \<le> m \<Longrightarrow> parse_value m src = parse_value (Suc (2 * length src)) src"
  using fuel_enough [of "Suc (2 * length src)"] by simp

section \<open>jsonParse and checkForId\<close>

text \<open>
  C3. \<open>jsonParse\<close> turns exactly one error condition into a failure Result: when
  \<open>JSON.parse\<close> throws a SyntaxError, \<open>jsonParse\<close> returns the failure variant holding
  that error object; when \<open>JSON.parse\<close> throws an error of any other class,
  \<open>jsonParse\<close> throws that error again and returns no Result; and a failure Result
  never comes from anything but a thrown SyntaxError.
\<close>

theorem jsonParse_converts_only_SyntaxError:
  "(JSON_parse input = Inl e \<and> cls e = SyntaxError \<longrightarrow>
      jsonParse JSON_parse input = Inr (Err e))
   \<and> (JSON_parse input = Inl e \<and> cls e \<noteq> SyntaxError \<longrightarrow>
      jsonParse JSON_parse input = Inl e)
   \<and> (jsonParse JSON_parse input = Inr (Err e) \<longrightarrow>
      JSON_parse input = Inl e \<and> cls e = SyntaxError)"
  by (auto simp: jsonParse_cases split: sum.splits if_splits)

theorem jsonParse_converts_only_SyntaxError_witness:
  \<open>jsonParse JSON_parse_ref ''invalid json'' =
     Inr (Err (Exception SyntaxError ''Unexpected token 'i', "invalid json" is not valid JSON''))
   \<and> jsonParse (\<lambda>text. Inl (Exception RangeError ''Maximum call stack size exceeded'')) ''[[[[''
       = Inl (Exception RangeError ''Maximum call stack size exceeded'')\<close>
proof -
  let ?e = \<open>Exception SyntaxError ''Unexpected token 'i', "invalid json" is not valid JSON''\<close>
  let ?r = "Exception RangeError ''Maximum call stack size exceeded''"
  have "cls ?e = SyntaxError" and "cls ?r \<noteq> SyntaxError"
    by simp_all
  with ref_invalid_json
    jsonParse_converts_only_SyntaxError [of JSON_parse_ref "''invalid json''" ?e]
    jsonParse_converts_only_SyntaxError [of "\<lambda>text. Inl ?r" "''[[[[''" ?r]
  show ?thesis by blast
qed

text \<open>
  C8. Whenever the \<open>id\<close> of the payload is falsy, \<open>checkForId\<close> returns the failure
  variant holding \<open>Error("No id found")\<close>. For a parsed object this covers an absent
  \<open>id\<close> and an \<open>id\<close> that is the empty string, zero, \<open>false\<close> or \<open>null\<close>, all with the
  same result. So when the engine parses \<open>{"id": ""}\<close> to the object with the empty
  string as \<open>id\<close>, the handler of lesson 5 calls \<open>res\<close> once, with 400 and
  \<open>No id found\<close>.
\<close>

theorem checkForId_rejects_falsy_id:
  \<open>(get_member data ''id'' = Inr i \<and> \<not> ToBoolean i \<longrightarrow>
      checkForId data = Inr (Err (Exception Error ''No id found'')))
   \<and> (map_of kvs ''id'' \<in> {None, Some (JString ''''), Some (JNumber (Finite 0)),
                              Some (JBoolean False), Some JNull} \<longrightarrow>
      checkForId (JObject kvs) = Inr (Err (Exception Error ''No id found'')))
   \<and> (JSON_parse ''{"id": ""}'' = Inr (JObject [(''id'', JString '''')]) \<longrightarrow>
      handleRequest_5 JSON_parse \<lparr>body = ''{"id": ""}''\<rparr> resSpy calls
        = (Inr (), calls @ [(400, JString ''No id found'')]))\<close>
proof (intro conjI impI)
  assume "get_member data ''id'' = Inr i \<and> \<not> ToBoolean i"
  then show "checkForId data = Inr (Err (Exception Error ''No id found''))"
    by (simp add: checkForId_def err_def)
next
  assume "map_of kvs ''id'' \<in> {None, Some (JString ''''), Some (JNumber (Finite 0)),
                              Some (JBoolean False), Some JNull}"
  then show "checkForId (JObject kvs) = Inr (Err (Exception Error ''No id found''))"
    by (auto simp: checkForId_def err_def)
next
  assume \<open>JSON_parse ''{"id": ""}'' = Inr (JObject [(''id'', JString '''')])\<close>
  then show \<open>handleRequest_5 JSON_parse \<lparr>body = ''{"id": ""}''\<rparr> resSpy calls
        = (Inr (), calls @ [(400, JString ''No id found'')])\<close>
    by (simp add: handleRequest_5_eq respond_checked_def)
qed

theorem checkForId_rejects_falsy_id_witness:
  \<open>checkForId (JObject [(''id'', JNumber (Finite 0))]) = Inr (Err (Exception Error ''No id found''))
   \<and> checkForId (JObject [(''name'', JString ''x'')]) = Inr (Err (Exception Error ''No id found''))
   \<and> handleRequest_5 JSON_parse_ref \<lparr>body = ''{"id": ""}''\<rparr> resSpy []
        = (Inr (), [(400, JString ''No id found'')])\<close>
proof -
  have zero: "checkForId (JObject [(''id'', JNumber (Finite 0))]) = Inr (Err (Exception Error ''No id found''))"
    using checkForId_rejects_falsy_id
      [where data = "JObject [(''id'', JNumber (Finite 0))]" and i = "JNumber (Finite 0)"]
    by simp
  have absent: "checkForId (JObject [(''name'', JString ''x'')]) = Inr (Err (Exception Error ''No id found''))"
    using checkForId_rejects_falsy_id [where kvs = "[(''name'', JString ''x'')]"]
    by simp
  have run: \<open>handleRequest_5 JSON_parse_ref \<lparr>body = ''{"id": ""}''\<rparr> resSpy []
        = (Inr (), [(400, JString ''No id found'')])\<close>
    using checkForId_rejects_falsy_id [where JSON_parse = JSON_parse_ref and calls = "[]"]
      ref_empty_id
    by simp
  from zero absent run show ?thesis by simp
qed

section \<open>The scenarios\<close>

text \<open>
  C1. Scenario A: when the engine parses the text \<open>{"id": "123"}\<close> to the object whose
  \<open>id\<close> is the string \<open>123\<close>, the handler of lesson 5 (\<open>jsonParse\<close>, then
  \<open>andThen(checkForId)\<close>, then \<open>map\<close>, then \<open>mapErr\<close>) returns normally and has called
  \<open>res\<close> once, with status 200 and message \<open>123\<close>.
\<close>

theorem scenario_A_valid_id:
  assumes \<open>JSON_parse ''{"id": "123"}'' = Inr (JObject [(''id'', JString ''123'')])\<close>
  shows \<open>handleRequest_5 JSON_parse \<lparr>body = ''{"id": "123"}''\<rparr> resSpy calls
           = (Inr (), calls @ [(200, JString ''123'')])\<close>
  using assms by (simp add: handleRequest_5_eq respond_checked_def)

theorem scenario_A_valid_id_witness:
  \<open>JSON_parse_ref ''{"id": "123"}'' = Inr (JObject [(''id'', JString ''123'')])
   \<and> handleRequest_5 JSON_parse_ref \<lparr>body = ''{"id": "123"}''\<rparr> resSpy []
        = (Inr (), [(200, JString ''123'')])\<close>
  using scenario_A_valid_id [of JSON_parse_ref "[]"] ref_id_123 by simp

text \<open>
  C2. Scenario B: when the engine parses the text \<open>{}\<close> to the object without
  properties, \<open>checkForId\<close> returns the failure variant holding an Error with the message
  \<open>No id found\<close>, and the handler of lesson 5 returns normally and has called \<open>res\<close>
  once, with status 400 and that message.
\<close>

theorem scenario_B_missing_id:
  assumes \<open>JSON_parse ''{}'' = Inr (JObject [])\<close>
  shows \<open>checkForId (JObject []) = Inr (Err (Exception Error ''No id found''))
         \<and> handleRequest_5 JSON_parse \<lparr>body = ''{}''\<rparr> resSpy calls
             = (Inr (), calls @ [(400, JString ''No id found'')])\<close>
  using assms by (simp add: handleRequest_5_eq respond_checked_def checkForId_def err_def)

theorem scenario_B_missing_id_witness:
  \<open>JSON_parse_ref ''{}'' = Inr (JObject [])
   \<and> checkForId (JObject []) = Inr (Err (Exception Error ''No id found''))
   \<and> handleRequest_5 JSON_parse_ref \<lparr>body = ''{}''\<rparr> resSpy []
        = (Inr (), [(400, JString ''No id found'')])\<close>
  using scenario_B_missing_id [of JSON_parse_ref "[]"] ref_empty_object by simp

text \<open>
  C5. Scenario C: when the engine throws a SyntaxError on the text \<open>invalid json\<close>,
  every handler (lessons 3 to 6) returns normally and has called \<open>res\<close> once, with
  status 400 and the message of that SyntaxError, which is the engine's own text.
\<close>

theorem scenario_C_invalid_json:
  assumes "JSON_parse ''invalid json'' = Inl e" and "cls e = SyntaxError"
  shows "handleRequest_3 JSON_parse \<lparr>body = ''invalid json''\<rparr> resSpy calls
           = (Inr (), calls @ [(400, JString (message e))])
         \<and> handleRequest_3_alt JSON_parse \<lparr>body = ''invalid json''\<rparr> resSpy calls
           = (Inr (), calls @ [(400, JString (message e))])
         \<and> handleRequest_4 JSON_parse \<lparr>body = ''invalid json''\<rparr> resSpy calls
           = (Inr (), calls @ [(400, JString (message e))])
         \<and> handleRequest_4_5 JSON_parse \<lparr>body = ''invalid json''\<rparr> resSpy calls
           = (Inr (), calls @ [(400, JString (message e))])
         \<and> handleRequest_5 JSON_parse \<lparr>body = ''invalid json''\<rparr> resSpy calls
           = (Inr (), calls @ [(400, JString (message e))])
         \<and> handleRequest_6 JSON_parse \<lparr>body = ''invalid json''\<rparr> resSpy calls
           = (Inr (), calls @ [(400, JString (message e))])"
  using assms by (simp add: handler_eqs respond_plain_def respond_checked_def)

theorem scenario_C_invalid_json_witness:
  \<open>handleRequest_3_alt JSON_parse_ref \<lparr>body = ''invalid json''\<rparr> resSpy []
     = (Inr (), [(400, JString ''Unexpected token 'i', "invalid json" is not valid JSON'')])
   \<and> handleRequest_5 JSON_parse_ref \<lparr>body = ''invalid json''\<rparr> resSpy []
     = (Inr (), [(400, JString ''Unexpected token 'i', "invalid json" is not valid JSON'')])\<close>
  using scenario_C_invalid_json [where JSON_parse = JSON_parse_ref and calls = "[]", OF ref_invalid_json]
  by simp

text \<open>
  C9. When the text is valid JSON and the engine parses it to \<open>null\<close> (as it does for the
  text \<open>null\<close>) or to \<open>undefined\<close>, \<open>jsonParse\<close> returns that payload as a success, the
  read of \<open>data.id\<close> on it throws a TypeError, \<open>checkForId\<close> ends with that thrown error,
  and the handler of lesson 5 does not return normally: the same error leaves it, and
  \<open>res\<close> is not called, whatever callback \<open>res\<close> is.
\<close>

theorem null_payload_escapes_as_TypeError:
  assumes "JSON_parse (body req) = Inr JNull \<or> JSON_parse (body req) = Inr JUndefined"
  shows "\<exists>data e. JSON_parse (body req) = Inr data
           \<and> jsonParse JSON_parse (body req) = Inr (Ok data)
           \<and> get_member data ''id'' = Inl e
           \<and> checkForId data = Inl e
           \<and> cls e = TypeError
           \<and> handleRequest_5 JSON_parse req res s = (Inl e, s)"
proof -
  from assms obtain data where parsed: "JSON_parse (body req) = Inr data"
    and nullish: "data = JNull \<or> data = JUndefined"
    by blast
  from nullish obtain e where read: "get_member data ''id'' = Inl e" and tyerr: "cls e = TypeError"
    by auto
  from read have check: "checkForId data = Inl e"
    by (simp add: checkForId_def)
  from parsed have result: "jsonParse JSON_parse (body req) = Inr (Ok data)"
    by (simp add: jsonParse_cases)
  from result check have "handleRequest_5 JSON_parse req res s = (Inl e, s)"
    by (simp add: handleRequest_5_def throw_def ret_def seq_def)
  with parsed result read check tyerr show ?thesis by blast
qed

theorem null_payload_escapes_as_TypeError_witness:
  "JSON_parse_ref ''null'' = Inr JNull
   \<and> (\<exists>e. get_member JNull ''id'' = Inl e
          \<and> checkForId JNull = Inl e
          \<and> cls e = TypeError
          \<and> handleRequest_5 JSON_parse_ref \<lparr>body = ''null''\<rparr> resSpy [] = (Inl e, []))"
  using null_payload_escapes_as_TypeError [of JSON_parse_ref "\<lparr>body = ''null''\<rparr>" resSpy "[]"]
    ref_null
  by auto

text \<open>
  C10. In the handlers without a validation step (lesson 3 in both solutions, lessons 4
  and 4.5), whenever the engine parses the text to an object without an \<open>id\<close> property,
  \<open>res\<close> is called once, with status 200 and \<open>undefined\<close> as the message, which is not
  a string. On the same input the handler of lesson 5 calls \<open>res\<close> with status 400 and
  \<open>No id found\<close>.
\<close>

theorem missing_id_is_success_without_validation:
  assumes "JSON_parse (body req) = Inr (JObject kvs)" and "map_of kvs ''id'' = None"
  shows "handleRequest_3 JSON_parse req resSpy calls = (Inr (), calls @ [(200, JUndefined)])
         \<and> handleRequest_3_alt JSON_parse req resSpy calls = (Inr (), calls @ [(200, JUndefined)])
         \<and> handleRequest_4 JSON_parse req resSpy calls = (Inr (), calls @ [(200, JUndefined)])
         \<and> handleRequest_4_5 JSON_parse req resSpy calls = (Inr (), calls @ [(200, JUndefined)])
         \<and> typeof JUndefined \<noteq> ''string''
         \<and> handleRequest_5 JSON_parse req resSpy calls
             = (Inr (), calls @ [(400, JString ''No id found'')])"
  using assms by (simp add: handler_eqs respond_plain_def respond_checked_def)

theorem missing_id_is_success_without_validation_witness:
  \<open>JSON_parse_ref ''{}'' = Inr (JObject [])
   \<and> handleRequest_3 JSON_parse_ref \<lparr>body = ''{}''\<rparr> resSpy [] = (Inr (), [(200, JUndefined)])
   \<and> handleRequest_3_alt JSON_parse_ref \<lparr>body = ''{}''\<rparr> resSpy [] = (Inr (), [(200, JUndefined)])
   \<and> handleRequest_4 JSON_parse_ref \<lparr>body = ''{}''\<rparr> resSpy [] = (Inr (), [(200, JUndefined)])
   \<and> handleRequest_4_5 JSON_parse_ref \<lparr>body = ''{}''\<rparr> resSpy [] = (Inr (), [(200, JUndefined)])
   \<and> handleRequest_5 JSON_parse_ref \<lparr>body = ''{}''\<rparr> resSpy []
       = (Inr (), [(400, JString ''No id found'')])\<close>
  using missing_id_is_success_without_validation
    [of JSON_parse_ref "\<lparr>body = ''{}''\<rparr>" "[]" "[]"] ref_empty_object
  by simp

section \<open>One outcome per request\<close>

lemma respond_plain_once:
  assumes "fst (respond_plain P req calls) = Inr ()"
  shows "\<exists>m. snd (respond_plain P req calls) = calls @ [(200, m)]
           \<or> snd (respond_plain P req calls) = calls @ [(400, m)]"
  using assms by (auto simp: respond_plain_def split: sum.splits if_splits)

lemma respond_checked_once:
  assumes "fst (respond_checked P req calls) = Inr ()"
  shows "\<exists>m. snd (respond_checked P req calls) = calls @ [(200, m)]
           \<or> snd (respond_checked P req calls) = calls @ [(400, m)]"
  using assms by (auto simp: respond_checked_def split: sum.splits if_splits)

text \<open>
  C4. For every engine and every request on which a handler returns normally (no error
  leaves it), the handler has called \<open>res\<close> exactly once, with status 200 or with status
  400: the recorded calls grow by one entry. This holds for the handlers built with
  \<open>isOk\<close>/\<open>isErr\<close> (lesson 3, both solutions), with \<open>map\<close> and \<open>mapErr\<close> (lessons 4, 5, 6)
  and with \<open>match\<close> (lesson 4.5). In \<open>match\<close> itself, on a success the failure callback
  is called zero times and the success callback once, and the other way round on a
  failure.
\<close>

theorem exactly_one_outcome:
  "(\<forall>run \<in> {handleRequest_3 JSON_parse req resSpy calls,
               handleRequest_3_alt JSON_parse req resSpy calls,
               handleRequest_4 JSON_parse req resSpy calls,
               handleRequest_4_5 JSON_parse req resSpy calls,
               handleRequest_5 JSON_parse req resSpy calls,
               handleRequest_6 JSON_parse req resSpy calls}.
      fst run = Inr () \<longrightarrow>
        (\<exists>m. snd run = calls @ [(200, m)] \<or> snd run = calls @ [(400, m)]))
   \<and> callCount ''onOk'' (snd (Result_match (spy ''onOk'' f) (spy ''onErr'' g) (Ok v) ([], s))) = 1
   \<and> callCount ''onErr'' (snd (Result_match (spy ''onOk'' f) (spy ''onErr'' g) (Ok v) ([], s))) = 0
   \<and> callCount ''onOk'' (snd (Result_match (spy ''onOk'' f) (spy ''onErr'' g) (Err e) ([], s))) = 0
   \<and> callCount ''onErr'' (snd (Result_match (spy ''onOk'' f) (spy ''onErr'' g) (Err e) ([], s))) = 1"
proof (intro conjI ballI)
  fix run
  assume "run \<in> {handleRequest_3 JSON_parse req resSpy calls,
               handleRequest_3_alt JSON_parse req resSpy calls,
               handleRequest_4 JSON_parse req resSpy calls,
               handleRequest_4_5 JSON_parse req resSpy calls,
               handleRequest_5 JSON_parse req resSpy calls,
               handleRequest_6 JSON_parse req resSpy calls}"
  then consider "run = respond_plain JSON_parse req calls"
    | "run = respond_checked JSON_parse req calls"
    by (auto simp: handler_eqs)
  then show "fst run = Inr () \<longrightarrow>
        (\<exists>m. snd run = calls @ [(200, m)] \<or> snd run = calls @ [(400, m)])"
  proof cases
    case 1
    then show ?thesis using respond_plain_once [of JSON_parse req calls] by simp
  next
    case 2
    then show ?thesis using respond_checked_once [of JSON_parse req calls] by simp
  qed
qed (simp_all add: spy_def callCount_def split: prod.splits)

theorem exactly_one_outcome_witness:
  \<open>fst (handleRequest_4_5 JSON_parse_ref \<lparr>body = ''{"id": "123"}''\<rparr> resSpy []) = Inr ()
   \<and> (\<exists>m. snd (handleRequest_4_5 JSON_parse_ref \<lparr>body = ''{"id": "123"}''\<rparr> resSpy [])
             = [(200, m)]
          \<or> snd (handleRequest_4_5 JSON_parse_ref \<lparr>body = ''{"id": "123"}''\<rparr> resSpy [])
             = [(400, m)])\<close>
proof -
  let ?run = \<open>handleRequest_4_5 JSON_parse_ref \<lparr>body = ''{"id": "123"}''\<rparr> resSpy []\<close>
  have returns: "fst ?run = Inr ()"
    by (simp add: handleRequest_4_5_eq respond_plain_def ref_id_123)
  have "fst ?run = Inr () \<longrightarrow> (\<exists>m. snd ?run = [] @ [(200, m)] \<or> snd ?run = [] @ [(400, m)])"
    by (rule exactly_one_outcome
      [where JSON_parse = JSON_parse_ref and req = \<open>\<lparr>body = ''{"id": "123"}''\<rparr>\<close>
         and calls = "[]", THEN conjunct1, THEN bspec]) simp
  with returns show ?thesis by simp
qed

end
